theory Spec2Isabelle
  imports Main
begin

section \<open>Values and strings of the report pipeline\<close>

text \<open>
  The schema-driven report pipeline (\<^verbatim>\<open>resolvePath\<close>, \<^verbatim>\<open>ListofObj_Base\<close>,
  \<^verbatim>\<open>ListofObj_to_Table\<close>, \<^verbatim>\<open>ListofObj_to_DelimitedText\<close>) works on untyped
  JavaScript values. The values it can meet are modelled by one datatype: the two
  null-like values, booleans, numbers, strings, array-like objects and plain objects.

  Boundaries of the model:
  \<^item> a string is a list of 8-bit characters (code units up to U+00FF);
  \<^item> a number is an integer (the ordinal column is the only number the pipeline makes
    itself) of a magnitude that prints in plain decimal;
  \<^item> \<open>Arr\<close> is an array or another array-like, iterable collection (a node list, an
    attribute map); \<open>Obj\<close> is a plain object given by its own properties in
    enumeration order. The property read \<open>getprop\<close> of the pipeline sees own data
    properties only: inherited properties (the prototype chain), accessors and
    function-valued properties are left out. The path resolver is defined for any
    property read, and what is proved of it does not depend on this choice.
\<close>

datatype jsval =
    Undefined
  | Null
  | Bool bool
  | Num int
  | Str string
  | Arr "jsval list"
  | Obj "(string \<times> jsval) list"

text \<open>
  What is thrown: the two exceptions of the language that the pipeline itself can raise,
  and any value thrown by a resolver function of a schema.
\<close>

datatype error = TypeError | RangeError | Thrown jsval

definition dquote :: char where
  "dquote = CHR 0x22"

definition LF :: char where
  "LF = CHR 0x0A"

definition CR :: char where
  "CR = CHR 0x0D"

text \<open>\<^verbatim>\<open>value == null\<close>: true for \<^verbatim>\<open>null\<close> and \<^verbatim>\<open>undefined\<close> only.\<close>

fun nullish :: "jsval \<Rightarrow> bool" where
  "nullish Undefined = True"
| "nullish Null = True"
| "nullish _ = False"

text \<open>ToBoolean, as the left operand of \<^verbatim>\<open>&&\<close> is tested.\<close>

fun truthy :: "jsval \<Rightarrow> bool" where
  "truthy Undefined = False"
| "truthy Null = False"
| "truthy (Bool b) = b"
| "truthy (Num n) = (n \<noteq> 0)"
| "truthy (Str s) = (s \<noteq> [])"
| "truthy (Arr xs) = True"
| "truthy (Obj ps) = True"

text \<open>\<^verbatim>\<open>typeof value === "object"\<close>: \<^verbatim>\<open>null\<close> is of type object too.\<close>

fun typeof_object :: "jsval \<Rightarrow> bool" where
  "typeof_object Null = True"
| "typeof_object (Arr xs) = True"
| "typeof_object (Obj ps) = True"
| "typeof_object _ = False"

subsection \<open>Numbers to text\<close>

definition digit_char :: "nat \<Rightarrow> char" where
  "digit_char d = ''0123456789'' ! d"

fun digits :: "nat \<Rightarrow> string" where
  "digits n = (if n < 10 then [digit_char n] else digits (n div 10) @ [digit_char (n mod 10)])"

declare digits.simps [simp del]

definition string_of_int :: "int \<Rightarrow> string" where
  "string_of_int i = (if i < 0 then CHR ''-'' # digits (nat (- i)) else digits (nat i))"

subsection \<open>\<^verbatim>\<open>String.prototype.trim\<close>\<close>

text \<open>
  White space and line terminators among the code units of the model: TAB, LF, VT, FF,
  CR, SPACE and NO-BREAK SPACE.
\<close>

definition isWhiteSpace :: "char \<Rightarrow> bool" where
  "isWhiteSpace c = (c \<in> set [CHR 0x09, CHR 0x0A, CHR 0x0B, CHR 0x0C, CHR 0x0D, CHR 0x20, CHR 0xA0])"

definition trim :: "string \<Rightarrow> string" where
  "trim s = rev (dropWhile isWhiteSpace (rev (dropWhile isWhiteSpace s)))"

subsection \<open>\<^verbatim>\<open>Array.prototype.join\<close> and \<^verbatim>\<open>String.prototype.split\<close>\<close>

fun join :: "string \<Rightarrow> string list \<Rightarrow> string" where
  "join sep [] = []"
| "join sep [x] = x"
| "join sep (x # y # ys) = x @ sep @ join sep (y # ys)"

text \<open>\<^verbatim>\<open>s.split(d)\<close> for a one-character separator: never the empty list.\<close>

fun split_on :: "char \<Rightarrow> string \<Rightarrow> string list" where
  "split_on d [] = [[]]"
| "split_on d (c # cs) =
     (if c = d then [] # split_on d cs
      else (case split_on d cs of
              [] \<Rightarrow> [[c]]
            | w # ws \<Rightarrow> (c # w) # ws))"

subsection \<open>Exceptions\<close>

text \<open>
  A computation that may throw returns \<open>error + 'a\<close>; \<open>bindE\<close> sequences two of
  them, the first exception aborting the rest. \<open>mapM\<close> is \<^verbatim>\<open>Array.prototype.map\<close>
  with a callback that may throw.
\<close>

fun bindE :: "error + 'a \<Rightarrow> ('a \<Rightarrow> error + 'b) \<Rightarrow> error + 'b" where
  "bindE (Inl e) f = Inl e"
| "bindE (Inr x) f = f x"

fun mapM :: "('a \<Rightarrow> error + 'b) \<Rightarrow> 'a list \<Rightarrow> error + 'b list" where
  "mapM f [] = Inr []"
| "mapM f (x # xs) = bindE (f x) (\<lambda>y. bindE (mapM f xs) (\<lambda>ys. Inr (y # ys)))"

subsection \<open>Conversions\<close>

text \<open>
  \<^verbatim>\<open>String(value)\<close>, which is also the conversion of a template literal and of
  \<^verbatim>\<open>+\<close> with a string operand. An array prints its elements joined by commas, a
  null-like element as the empty text; a plain object prints as \<^verbatim>\<open>[object Object]\<close>.
\<close>

fun to_string :: "jsval \<Rightarrow> string" where
  "to_string Undefined = ''undefined''"
| "to_string Null = ''null''"
| "to_string (Bool b) = (if b then ''true'' else ''false'')"
| "to_string (Num n) = string_of_int n"
| "to_string (Str s) = s"
| "to_string (Arr xs) = join '','' (map (\<lambda>x. if nullish x then [] else to_string x) xs)"
| "to_string (Obj ps) = ''[object Object]''"

definition is_digit :: "char \<Rightarrow> bool" where
  "is_digit c = (c \<in> set ''0123456789'')"

definition digit_val :: "char \<Rightarrow> nat" where
  "digit_val c = length (takeWhile (\<lambda>d. d \<noteq> c) ''0123456789'')"

definition nat_of_digits :: "string \<Rightarrow> nat" where
  "nat_of_digits s = foldl (\<lambda>a c. 10 * a + digit_val c) 0 s"

text \<open>
  ToNumber, \<open>None\<close> standing for NaN. Of the numeric texts only an optionally signed
  run of decimal digits, white space around it, is read; fractions, exponents and
  radix prefixes denote no number of this model.
\<close>

definition string_to_number :: "string \<Rightarrow> int option" where
  "string_to_number s =
     (let t = trim s in
      if t = [] then Some 0
      else if list_all is_digit t then Some (int (nat_of_digits t))
      else if hd t = CHR ''+'' \<and> tl t \<noteq> [] \<and> list_all is_digit (tl t) then Some (int (nat_of_digits (tl t)))
      else if hd t = CHR ''-'' \<and> tl t \<noteq> [] \<and> list_all is_digit (tl t) then Some (- int (nat_of_digits (tl t)))
      else None)"

fun to_number :: "jsval \<Rightarrow> int option" where
  "to_number Undefined = None"
| "to_number Null = Some 0"
| "to_number (Bool b) = Some (if b then 1 else 0)"
| "to_number (Num n) = Some n"
| "to_number (Str s) = string_to_number s"
| "to_number (Arr xs) = string_to_number (to_string (Arr xs))"
| "to_number (Obj ps) = None"

subsection \<open>Property access\<close>

text \<open>
  A canonical array index: a decimal numeral without leading zero.
\<close>

definition parse_index :: "string \<Rightarrow> nat option" where
  "parse_index k =
     (case k of
        [] \<Rightarrow> None
      | c # cs \<Rightarrow>
          if list_all is_digit k \<and> (cs = [] \<or> c \<in> set ''123456789'')
          then Some (nat_of_digits k) else None)"

definition obj_get :: "(string \<times> jsval) list \<Rightarrow> string \<Rightarrow> jsval" where
  "obj_get ps k = (case map_of ps k of None \<Rightarrow> Undefined | Some v \<Rightarrow> v)"

text \<open>
  \<^verbatim>\<open>value[key]\<close> for a string key. Reading a property of \<^verbatim>\<open>null\<close> or
  \<^verbatim>\<open>undefined\<close> throws a TypeError; a missing property reads as \<^verbatim>\<open>undefined\<close>.
\<close>

fun getprop :: "jsval \<Rightarrow> string \<Rightarrow> error + jsval" where
  "getprop Undefined k = Inl TypeError"
| "getprop Null k = Inl TypeError"
| "getprop (Bool b) k = Inr Undefined"
| "getprop (Num n) k = Inr Undefined"
| "getprop (Str s) k =
     (if k = ''length'' then Inr (Num (int (length s)))
      else (case parse_index k of
              None \<Rightarrow> Inr Undefined
            | Some i \<Rightarrow> if i < length s then Inr (Str [s ! i]) else Inr Undefined))"
| "getprop (Arr xs) k =
     (if k = ''length'' then Inr (Num (int (length xs)))
      else (case parse_index k of
              None \<Rightarrow> Inr Undefined
            | Some i \<Rightarrow> if i < length xs then Inr (xs ! i) else Inr Undefined))"
| "getprop (Obj ps) k = Inr (obj_get ps k)"

text \<open>\<^verbatim>\<open>value[i]\<close> for a number \<open>i\<close> that is a natural number.\<close>

fun get_index :: "jsval \<Rightarrow> nat \<Rightarrow> error + jsval" where
  "get_index Undefined i = Inl TypeError"
| "get_index Null i = Inl TypeError"
| "get_index (Bool b) i = Inr Undefined"
| "get_index (Num n) i = Inr Undefined"
| "get_index (Str s) i = (if i < length s then Inr (Str [s ! i]) else Inr Undefined)"
| "get_index (Arr xs) i = (if i < length xs then Inr (xs ! i) else Inr Undefined)"
| "get_index (Obj ps) i = Inr (obj_get ps (digits i))"

section \<open>PathResolver\<close>

text \<open>
  \<^verbatim>\<open>
  function resolvePath(root, path) {
      return path.split(".").reduce((acc, key) => acc && acc[key], root);
  }
  \<close>
  \<open>and_get\<close> is the callback \<^verbatim>\<open>acc && acc[key]\<close>: a falsy \<open>acc\<close> is the result
  itself, a truthy one has its property read. The property read \<^verbatim>\<open>acc[key]\<close> is the
  parameter \<open>rd\<close>: it stands for the read as the language makes it, through own and
  inherited properties and accessors, which may return any value or throw.
  \<open>resolvePath\<close> is the resolver with the read of own data properties, \<open>getprop\<close>.
\<close>

definition and_get :: "(jsval \<Rightarrow> string \<Rightarrow> error + jsval) \<Rightarrow> jsval \<Rightarrow> string \<Rightarrow> error + jsval" where
  "and_get rd acc key = (if truthy acc then rd acc key else Inr acc)"

fun reduce_keys :: "(jsval \<Rightarrow> string \<Rightarrow> error + jsval) \<Rightarrow> jsval \<Rightarrow> string list \<Rightarrow> error + jsval" where
  "reduce_keys rd acc [] = Inr acc"
| "reduce_keys rd acc (key # keys) = bindE (and_get rd acc key) (\<lambda>v. reduce_keys rd v keys)"

definition resolvePath_reading :: "(jsval \<Rightarrow> string \<Rightarrow> error + jsval) \<Rightarrow> jsval \<Rightarrow> string \<Rightarrow> error + jsval" where
  "resolvePath_reading rd root path = reduce_keys rd root (split_on CHR ''.'' path)"

definition resolvePath :: "jsval \<Rightarrow> string \<Rightarrow> error + jsval" where
  "resolvePath root path = resolvePath_reading getprop root path"

text \<open>
  The resolver in the words of the specification: walk segment by segment, and yield
  absent as soon as the current value is \<^verbatim>\<open>null\<close> or \<^verbatim>\<open>undefined\<close>.
\<close>

fun resolve_spec :: "jsval \<Rightarrow> string list \<Rightarrow> jsval" where
  "resolve_spec cur [] = cur"
| "resolve_spec cur (key # keys) =
     (if nullish cur then Undefined
      else (case getprop cur key of Inl e \<Rightarrow> Undefined | Inr v \<Rightarrow> resolve_spec v keys))"

section \<open>SchemaRowBuilder: \<^verbatim>\<open>ListofObj_Base\<close>\<close>

text \<open>
  A schema is an object literal from column label to resolver; it is given by its
  entries in the order \<^verbatim>\<open>Object.keys\<close> and \<^verbatim>\<open>Object.values\<close> enumerate them. A
  resolver is a property path or a function of the item, which returns a value or
  throws. The collection is the list of its items.
\<close>

datatype resolver = Path string | Fn "jsval \<Rightarrow> error + jsval"

record ListofObj_Base =
  header :: "string list"
  fields' :: "resolver list"
  collection :: "jsval list"
  schema :: "(string \<times> resolver) list"
  title :: string

text \<open>
  \<^verbatim>\<open>
  constructor(schema, collection) {
      this.header = this.header.concat(Object.keys(schema));
      this.fields = Object.values(schema);
      this.collection = collection;
      this.schema = schema;
  }
  \<close>
  with the field initialisers \<^verbatim>\<open>header = ["No."]\<close> and \<^verbatim>\<open>title = ""\<close>. The
  field \<^verbatim>\<open>fields\<close> is named \<open>fields'\<close>, the plain name being taken by the record
  package.
\<close>

definition ListofObj_Base_new :: "(string \<times> resolver) list \<Rightarrow> jsval list \<Rightarrow> ListofObj_Base" where
  "ListofObj_Base_new sch coll =
     \<lparr> header = [''No.''] @ map fst sch,
       fields' = map snd sch,
       collection = coll,
       schema = sch,
       title = [] \<rparr>"

definition setTitle :: "string \<Rightarrow> 'a ListofObj_Base_scheme \<Rightarrow> 'a ListofObj_Base_scheme" where
  "setTitle t b = b\<lparr>title := t\<rparr>"

text \<open>
  \<^verbatim>\<open>
  resolveField(objItem, resolver) {
      if (typeof resolver === "function") {
          return resolver(objItem);
      }
      return resolvePath(objItem, resolver);
  }
  \<close>
  The call of the resolver function is not guarded: what it throws, \<open>resolveField\<close>
  throws.
\<close>

definition resolveField :: "jsval \<Rightarrow> resolver \<Rightarrow> error + jsval" where
  "resolveField objItem r =
     (case r of
        Fn f \<Rightarrow> f objItem
      | Path p \<Rightarrow> resolvePath objItem p)"

text \<open>
  \<^verbatim>\<open>
  for (let i = 0; i < this.collection.length; i++) {
      const objItem = this.collection[i];
      const row = this.fields.map(resolver => this.resolveField(objItem, resolver));
      rows.push([i + 1, ...row]);
  }
  \<close>
\<close>

function buildRows_loop :: "resolver list \<Rightarrow> jsval list \<Rightarrow> nat \<Rightarrow> jsval list list \<Rightarrow> error + jsval list list" where
  "buildRows_loop fs coll i rows =
     (if i < length coll
      then bindE (mapM (resolveField (coll ! i)) fs)
             (\<lambda>row. buildRows_loop fs coll (i + 1) (rows @ [Num (int i + 1) # row]))
      else Inr rows)"
  by pat_completeness auto
termination
  by (relation "measure (\<lambda>(fs, coll, i, rows). length coll - i)") auto

declare buildRows_loop.simps [simp del]

definition buildRows :: "'a ListofObj_Base_scheme \<Rightarrow> error + jsval list list" where
  "buildRows b = buildRows_loop (fields' b) (collection b) 0 []"

section \<open>CellFormatter: \<^verbatim>\<open>ListofObj_Base.formatValue\<close>\<close>

text \<open>
  \<^verbatim>\<open>Array.from(value)\<close>. An array is iterated. A plain object is not iterable and is
  read as an array-like: its \<^verbatim>\<open>length\<close> is converted by ToLength and the elements
  are the properties \<open>0 .. length - 1\<close>; a length beyond \<open>2^32 - 1\<close> is a RangeError. A
  string is iterated by characters; a boolean or a number has no length.
\<close>

definition to_length :: "jsval \<Rightarrow> int" where
  "to_length v =
     (case to_number v of
        None \<Rightarrow> 0
      | Some n \<Rightarrow> if n \<le> 0 then 0 else min n (2 ^ 53 - 1))"

fun array_from :: "jsval \<Rightarrow> error + jsval list" where
  "array_from Undefined = Inl TypeError"
| "array_from Null = Inl TypeError"
| "array_from (Bool b) = Inr []"
| "array_from (Num n) = Inr []"
| "array_from (Str s) = Inr (map (\<lambda>c. Str [c]) s)"
| "array_from (Arr xs) = Inr xs"
| "array_from (Obj ps) =
     (let len = to_length (obj_get ps ''length'') in
      if len > 2 ^ 32 - 1 then Inl RangeError
      else Inr (map (\<lambda>i. obj_get ps (digits i)) [0..<nat len]))"

text \<open>The callback \<^verbatim>\<open>v => `${v.name}: ${v.value}`\<close>.\<close>

definition pair_text :: "jsval \<Rightarrow> error + string" where
  "pair_text v =
     bindE (getprop v ''name'') (\<lambda>nm.
     bindE (getprop v ''value'') (\<lambda>vl.
     Inr (to_string nm @ '': '' @ to_string vl)))"

text \<open>
  \<^verbatim>\<open>
  static formatValue(value) {
      if (value == null) return "";
      if (typeof value === "object") {
          return Array.from(value).map(v => `${v.name}: ${v.value}`).join("; ");
      }
      return String(value).trim();
  }
  \<close>
\<close>

definition formatValue :: "jsval \<Rightarrow> error + string" where
  "formatValue v =
     (if nullish v then Inr []
      else if typeof_object v
      then bindE (array_from v) (\<lambda>xs. bindE (mapM pair_text xs) (\<lambda>ts. Inr (join ''; '' ts)))
      else Inr (trim (to_string v)))"

section \<open>The CSV encoder\<close>

text \<open>
  \<^verbatim>\<open>/[",\n]/.test(inputString)\<close>: some character of the string is in the class.
\<close>

definition regex_test_class :: "char list \<Rightarrow> string \<Rightarrow> bool" where
  "regex_test_class cls s = list_ex (\<lambda>c. c \<in> set cls) s"

text \<open>
  \<^verbatim>\<open>inputString.replace(/"/g, '""')\<close>, for any single character and replacement:
  every occurrence is replaced, left to right.
\<close>

fun replace_all :: "char \<Rightarrow> string \<Rightarrow> string \<Rightarrow> string" where
  "replace_all c r [] = []"
| "replace_all c r (x # xs) = (if x = c then r @ replace_all c r xs else x # replace_all c r xs)"

definition escapeForCSV :: "string \<Rightarrow> string" where
  "escapeForCSV inputString =
     (if regex_test_class [dquote, CHR '','', LF] inputString
      then [dquote] @ replace_all dquote [dquote, dquote] inputString @ [dquote]
      else inputString)"

text \<open>
  The encoder in the words of the specification: a text with a double quote, a comma or
  a newline is wrapped in double quotes with every embedded double quote doubled.
\<close>

definition needs_quoting :: "string \<Rightarrow> bool" where
  "needs_quoting t = (dquote \<in> set t \<or> CHR '','' \<in> set t \<or> LF \<in> set t)"

definition double_quotes :: "string \<Rightarrow> string" where
  "double_quotes t = concat (map (\<lambda>c. if c = dquote then [dquote, dquote] else [c]) t)"

text \<open>
  \<^verbatim>\<open>
  static formatCSVcellvalues(strCellinput) {
      function CSVlistAttributes(arr) {
          let strOutput = "";
          for (let i = 0; i < arr.length; i++) {
              strOutput += arr[i].name + ": " + arr[i].value + ";\n\r";
          }
          return strOutput;
      }
      let strOutput;
      if (typeof strCellinput === "object") {
          strOutput = CSVlistAttributes(strCellinput);
      } else {
          strOutput = String(strCellinput).trim();
      }
      return strOutput;
  }
  \<close>
  The loop runs for \<open>i = 0, 1, ..\<close> while \<^verbatim>\<open>i < arr.length\<close>, the length converted
  by ToNumber: \<open>loop_count\<close> iterations.
\<close>

definition loop_count :: "jsval \<Rightarrow> nat" where
  "loop_count len = (case to_number len of None \<Rightarrow> 0 | Some n \<Rightarrow> nat n)"

definition attribute_line :: "jsval \<Rightarrow> error + string" where
  "attribute_line item =
     bindE (getprop item ''name'') (\<lambda>nm.
     bindE (getprop item ''value'') (\<lambda>vl.
     Inr (to_string nm @ '': '' @ to_string vl @ [CHR '';'', LF, CR])))"

fun CSVlistAttributes_loop :: "jsval \<Rightarrow> nat list \<Rightarrow> string \<Rightarrow> error + string" where
  "CSVlistAttributes_loop arr [] strOutput = Inr strOutput"
| "CSVlistAttributes_loop arr (i # is) strOutput =
     bindE (get_index arr i) (\<lambda>item.
     bindE (attribute_line item) (\<lambda>line.
     CSVlistAttributes_loop arr is (strOutput @ line)))"

definition CSVlistAttributes :: "jsval \<Rightarrow> error + string" where
  "CSVlistAttributes arr =
     bindE (getprop arr ''length'') (\<lambda>len. CSVlistAttributes_loop arr [0..<loop_count len] [])"

definition formatCSVcellvalues :: "jsval \<Rightarrow> error + string" where
  "formatCSVcellvalues strCellinput =
     (if typeof_object strCellinput then CSVlistAttributes strCellinput
      else Inr (trim (to_string strCellinput)))"

section \<open>DelimitedTextRenderer: \<^verbatim>\<open>ListofObj_to_DelimitedText\<close>\<close>

record ListofObj_to_DelimitedText = ListofObj_Base +
  columnDelimiter :: string
  rowDelimiter :: string

text \<open>The \<^verbatim>\<open>options\<close> argument: each delimiter may be left out.\<close>

record options =
  columnDelimiter_opt :: "string option"
  rowDelimiter_opt :: "string option"

text \<open>\<^verbatim>\<open>a ?? b\<close>\<close>

definition nullish_coalesce :: "'a option \<Rightarrow> 'a \<Rightarrow> 'a" where
  "nullish_coalesce a b = (case a of None \<Rightarrow> b | Some x \<Rightarrow> x)"

text \<open>
  \<^verbatim>\<open>
  constructor(schema, collection, options = {}) {
      super(schema, collection);
      this.columnDelimiter = options.columnDelimiter ?? ",";
      this.rowDelimiter = options.rowDelimiter ?? "<BR>";
  }
  \<close>
\<close>

definition ListofObj_to_DelimitedText_new ::
  "(string \<times> resolver) list \<Rightarrow> jsval list \<Rightarrow> options \<Rightarrow> ListofObj_to_DelimitedText" where
  "ListofObj_to_DelimitedText_new sch coll opts =
     ListofObj_Base.extend (ListofObj_Base_new sch coll)
       (ListofObj_to_DelimitedText.fields
          (nullish_coalesce (columnDelimiter_opt opts) '','')
          (nullish_coalesce (rowDelimiter_opt opts) ''<BR>''))"

text \<open>
  The cell callback of \<^verbatim>\<open>render\<close>:
  \<^verbatim>\<open>v => ListofObj_Base.formatValue(ListofObj_to_DelimitedText.escapeForCSV(
         ListofObj_to_DelimitedText.formatCSVcellvalues(v)))\<close>
\<close>

definition render_cell :: "jsval \<Rightarrow> error + string" where
  "render_cell v = bindE (formatCSVcellvalues v) (\<lambda>s. formatValue (Str (escapeForCSV s)))"

text \<open>
  \<^verbatim>\<open>
  rows.forEach(row => {
      output += row.map(v => ...).join(this.columnDelimiter) + this.rowDelimiter;
  });
  \<close>
  with the cell callback \<open>f\<close>.
\<close>

fun render_rows ::
  "(jsval \<Rightarrow> error + string) \<Rightarrow> string \<Rightarrow> string \<Rightarrow> jsval list list \<Rightarrow> string \<Rightarrow> error + string" where
  "render_rows f cd rd [] output = Inr output"
| "render_rows f cd rd (row # rows) output =
     bindE (mapM f row) (\<lambda>cells. render_rows f cd rd rows (output @ join cd cells @ rd))"

text \<open>
  \<^verbatim>\<open>
  render() {
      let output = "";
      if (this.title) {
          output += `<STRONG>${this.title}</STRONG>` + this.rowDelimiter;
      }
      output += this.header.join(this.columnDelimiter) + this.rowDelimiter;
      const rows = this.buildRows();
      rows.forEach(...);
      return output;
  }
  \<close>
\<close>

definition title_line :: "string \<Rightarrow> string \<Rightarrow> string" where
  "title_line t rd = (if t \<noteq> [] then ''<STRONG>'' @ t @ ''</STRONG>'' @ rd else [])"

definition render :: "ListofObj_to_DelimitedText \<Rightarrow> error + string" where
  "render d =
     (let output = title_line (title d) (rowDelimiter d);
          output = output @ join (columnDelimiter d) (header d) @ rowDelimiter d
      in bindE (buildRows d) (\<lambda>rows.
           render_rows render_cell (columnDelimiter d) (rowDelimiter d) rows output))"

text \<open>
  The stand-alone class file of the repository has the same class with another cell
  callback in \<^verbatim>\<open>render\<close>, and nothing else changed:
  \<^verbatim>\<open>row.map(v => ListofObj_Base.formatValue(v)).join(this.columnDelimiter)\<close>
\<close>

definition render_plain :: "ListofObj_to_DelimitedText \<Rightarrow> error + string" where
  "render_plain d =
     (let output = title_line (title d) (rowDelimiter d);
          output = output @ join (columnDelimiter d) (header d) @ rowDelimiter d
      in bindE (buildRows d) (\<lambda>rows.
           render_rows formatValue (columnDelimiter d) (rowDelimiter d) rows output))"

section \<open>TableRenderer: \<^verbatim>\<open>ListofObj_to_Table\<close>\<close>

record ListofObj_to_Table = ListofObj_Base +
  objCSV :: string

definition ListofObj_to_Table_new :: "(string \<times> resolver) list \<Rightarrow> jsval list \<Rightarrow> ListofObj_to_Table" where
  "ListofObj_to_Table_new sch coll =
     ListofObj_Base.extend (ListofObj_Base_new sch coll) (ListofObj_to_Table.fields [])"

text \<open>The template literal of \<^verbatim>\<open>tableStyle\<close>, line breaks and indentation included.\<close>

definition tableStyle :: "string \<Rightarrow> string" where
  "tableStyle headerBackgroundColor =
     [LF] @ ''      <STYLE>'' @
     [LF] @ ''        table, th, td {'' @
     [LF] @ ''          border: 1px solid #9E9E9E;'' @
     [LF] @ ''          border-collapse: collapse;'' @
     [LF] @ ''        }'' @
     [LF] @ ''        th { background: '' @ headerBackgroundColor @ ''; }'' @
     [LF] @ ''      </STYLE>'' @
     [LF] @ ''    ''"

text \<open>
  \<^verbatim>\<open>createCSVBloblink\<close> wraps the CSV text in a Blob and asks the browser for an object
  URL; the browser's answer is the parameter \<open>createObjectURL\<close>.
\<close>

definition createCSVBloblink :: "(string \<Rightarrow> string) \<Rightarrow> string \<Rightarrow> string \<Rightarrow> string" where
  "createCSVBloblink createObjectURL csv csvFileName =
     ''<A href='' @ [dquote] @ createObjectURL csv @ [dquote] @ '' download='' @ [dquote]
       @ csvFileName @ [dquote] @ ''>'' @ ''Download as CSV'' @ ''</A>''"

text \<open>
  \<^verbatim>\<open>row.forEach(cell => { html += `<TD>${ListofObj_Base.formatValue(cell)}</TD>`; });\<close>
\<close>

fun table_cells :: "jsval list \<Rightarrow> string \<Rightarrow> error + string" where
  "table_cells [] html = Inr html"
| "table_cells (cell # cells) html =
     bindE (formatValue cell) (\<lambda>t. table_cells cells (html @ ''<TD>'' @ t @ ''</TD>''))"

fun table_rows :: "jsval list list \<Rightarrow> string \<Rightarrow> error + string" where
  "table_rows [] html = Inr html"
| "table_rows (row # rows) html =
     bindE (table_cells row (html @ ''<TR>'')) (\<lambda>html. table_rows rows (html @ ''</TR>''))"

text \<open>
  \<^verbatim>\<open>ListofObj_to_Table.render(csvFileName = "download.csv")\<close>: the result is the markup
  and the object with its \<^verbatim>\<open>objCSV\<close> field assigned.
  \<^verbatim>\<open>
  const objDelimTxt = new ListofObj_to_DelimitedText(this.schema, this.collection, {
      columnDelimiter: ",",
      rowDelimiter: "\r\n"
  });
  this.objCSV = objDelimTxt.render();
  html += ListofObj_to_Table.createCSVBloblink(this.objCSV, csvFileName);
  \<close>
\<close>

definition csv_options :: options where
  "csv_options = \<lparr> columnDelimiter_opt = Some '','', rowDelimiter_opt = Some [CR, LF] \<rparr>"

definition table_render ::
  "(string \<Rightarrow> string) \<Rightarrow> ListofObj_to_Table \<Rightarrow> string option \<Rightarrow> error + (string \<times> ListofObj_to_Table)" where
  "table_render createObjectURL t csvFileName_arg =
     (let csvFileName = nullish_coalesce csvFileName_arg ''download.csv'';
          html = (if title t \<noteq> [] then ''<H1>'' @ title t @ ''</H1>'' else []);
          html = html @ tableStyle ''#FFC107'';
          html = html @ ''<TABLE><TR>'';
          html = html @ concat (map (\<lambda>h. ''<TH>'' @ h @ ''</TH>'') (header t));
          html = html @ ''</TR>''
      in bindE (buildRows t) (\<lambda>rows.
         bindE (table_rows rows html) (\<lambda>html.
         let html = html @ ''</TABLE><BR>'';
             objDelimTxt = ListofObj_to_DelimitedText_new (schema t) (collection t) csv_options
         in bindE (render objDelimTxt) (\<lambda>csv.
            let t = t\<lparr>objCSV := csv\<rparr>;
                html = html @ createCSVBloblink createObjectURL (objCSV t) csvFileName
            in Inr (html, t)))))"

section \<open>Properties of the CSV encoder\<close>

lemma regex_test_class_needs_quoting:
  "regex_test_class [dquote, CHR '','', LF] t = needs_quoting t"
  by (auto simp: regex_test_class_def needs_quoting_def list_ex_iff)

lemma replace_all_double_quotes:
  "replace_all dquote [dquote, dquote] t = double_quotes t"
  by (induction t) (simp_all add: double_quotes_def)

text \<open>
  C7. For every text \<open>t\<close>: if \<open>t\<close> contains a double quote, a comma or a newline,
  \<open>escapeForCSV t\<close> is \<open>t\<close> with every double quote doubled, wrapped in double quotes;
  otherwise it is \<open>t\<close> unchanged. In particular \<^verbatim>\<open>a"b,c\<close> becomes \<^verbatim>\<open>"a""b,c"\<close>.
\<close>

theorem escapeForCSV_spec:
  "escapeForCSV t = (if needs_quoting t then [dquote] @ double_quotes t @ [dquote] else t)
   \<and> escapeForCSV [CHR ''a'', dquote, CHR ''b'', CHR '','', CHR ''c'']
       = [dquote, CHR ''a'', dquote, dquote, CHR ''b'', CHR '','', CHR ''c'', dquote]"
proof
  show "escapeForCSV t = (if needs_quoting t then [dquote] @ double_quotes t @ [dquote] else t)"
    by (simp add: escapeForCSV_def regex_test_class_needs_quoting replace_all_double_quotes)
  show "escapeForCSV [CHR ''a'', dquote, CHR ''b'', CHR '','', CHR ''c'']
       = [dquote, CHR ''a'', dquote, dquote, CHR ''b'', CHR '','', CHR ''c'', dquote]"
    by (simp add: escapeForCSV_def regex_test_class_def dquote_def)
qed

text \<open>
  C9. On a text with no double quote, no comma and no newline the encoder is idempotent:
  \<open>escapeForCSV (escapeForCSV t) = escapeForCSV t\<close>, the text being returned unchanged.
\<close>

theorem escapeForCSV_idempotent_safe:
  assumes "dquote \<notin> set t" and "CHR '','' \<notin> set t" and "LF \<notin> set t"
  shows "escapeForCSV (escapeForCSV t) = escapeForCSV t \<and> escapeForCSV t = t"
  using assms
  by (simp add: escapeForCSV_def regex_test_class_needs_quoting needs_quoting_def)

theorem escapeForCSV_idempotent_safe_witness:
  "dquote \<notin> set ''abc'' \<and> CHR '','' \<notin> set ''abc'' \<and> LF \<notin> set ''abc''
   \<and> escapeForCSV (escapeForCSV ''abc'') = escapeForCSV ''abc'' \<and> escapeForCSV ''abc'' = ''abc''"
proof -
  have a: "dquote \<notin> set ''abc''" by (simp add: dquote_def)
  have b: "CHR '','' \<notin> set ''abc''" by simp
  have c: "LF \<notin> set ''abc''" by (simp add: LF_def)
  show ?thesis using a b c escapeForCSV_idempotent_safe [OF a b c] by simp
qed

section \<open>Exceptions in sequence\<close>

lemma bindE_Inr: "bindE m f = Inr y \<longleftrightarrow> (\<exists>x. m = Inr x \<and> f x = Inr y)"
  by (cases m) auto

lemma bindE_assoc: "bindE (bindE m f) g = bindE m (\<lambda>x. bindE (f x) g)"
  by (cases m) simp_all

section \<open>Properties of the path resolver\<close>

lemma nullish_falsy: "nullish v \<Longrightarrow> \<not> truthy v"
  by (cases v) simp_all

lemma reduce_keys_falsy: "\<not> truthy v \<Longrightarrow> reduce_keys rd v ks = Inr v"
  by (induction ks) (simp_all add: and_get_def)

lemma reduce_keys_append:
  "reduce_keys rd v (ks @ ks') = bindE (reduce_keys rd v ks) (\<lambda>w. reduce_keys rd w ks')"
proof (induction ks arbitrary: v)
  case Nil
  show ?case by simp
next
  case (Cons k ks)
  show ?case
    by (cases "and_get rd v k") (simp_all add: Cons)
qed

lemma reduce_keys_agree:
  assumes "\<And>w k. truthy w \<Longrightarrow> rd' w k = rd w k"
  shows "reduce_keys rd' v ks = reduce_keys rd v ks"
proof (induction ks arbitrary: v)
  case Nil
  show ?case by simp
next
  case (Cons k ks)
  have "and_get rd' v k = and_get rd v k"
    using assms by (simp add: and_get_def)
  with Cons show ?case by simp
qed

lemma reduce_keys_Inl:
  "reduce_keys rd v ks = Inl e \<Longrightarrow> \<exists>w k. truthy w \<and> rd w k = Inl e"
proof (induction ks arbitrary: v)
  case Nil
  then show ?case by simp
next
  case (Cons k ks)
  show ?case
  proof (cases "and_get rd v k")
    case (Inl e')
    with Cons.prems have "e' = e" by simp
    with Inl have "truthy v \<and> rd v k = Inl e"
      by (auto simp: and_get_def split: if_splits)
    then show ?thesis by blast
  next
    case (Inr w)
    with Cons.prems have "reduce_keys rd w ks = Inl e" by simp
    then show ?thesis by (rule Cons.IH)
  qed
qed

text \<open>
  C4, as the code has it, for every property read \<open>rd\<close>. The resolver walks the
  segments of the path one by one: after the first \<open>n\<close> segments it goes on from the
  value they gave, reading the next property of a truthy value. As soon as the current
  value is falsy (\<^verbatim>\<open>null\<close> or \<^verbatim>\<open>undefined\<close>, but also \<^verbatim>\<open>false\<close>, \<^verbatim>\<open>0\<close> or the
  empty string) it is the result, whatever segments are left, so \<^verbatim>\<open>null\<close> and
  \<^verbatim>\<open>undefined\<close> give a null-like result and no exception. No property of a falsy value
  is read: the result is the same for every read that agrees with \<open>rd\<close> on the truthy
  values. An exception of the resolver is the exception of a property read on a truthy
  value. The path is only split at the dots and its segments used as property keys.
\<close>

theorem resolvePath_short_circuit:
  "(reduce_keys rd root (take n (split_on CHR ''.'' path)) = Inr v \<longrightarrow>
      resolvePath_reading rd root path = reduce_keys rd v (drop n (split_on CHR ''.'' path)))
   \<and> (reduce_keys rd root (take n (split_on CHR ''.'' path)) = Inr v \<and> \<not> truthy v \<longrightarrow>
      resolvePath_reading rd root path = Inr v)
   \<and> (reduce_keys rd root (take n (split_on CHR ''.'' path)) = Inr v \<and> nullish v \<longrightarrow>
      resolvePath_reading rd root path = Inr v)
   \<and> (truthy v \<longrightarrow> reduce_keys rd v (key # keys) = bindE (rd v key) (\<lambda>w. reduce_keys rd w keys))
   \<and> ((\<forall>w k. truthy w \<longrightarrow> rd' w k = rd w k) \<longrightarrow>
      resolvePath_reading rd' root path = resolvePath_reading rd root path)
   \<and> (resolvePath_reading rd root path = Inl e \<longrightarrow> (\<exists>w k. truthy w \<and> rd w k = Inl e))
   \<and> resolvePath root path = resolvePath_reading getprop root path"
proof -
  let ?ks = "split_on CHR ''.'' path"
  have walk: "reduce_keys rd root (take n ?ks) = Inr v \<Longrightarrow>
      resolvePath_reading rd root path = reduce_keys rd v (drop n ?ks)"
    using reduce_keys_append [of rd root "take n ?ks" "drop n ?ks"]
    by (simp add: resolvePath_reading_def)
  have stop: "reduce_keys rd root (take n ?ks) = Inr v \<Longrightarrow> \<not> truthy v \<Longrightarrow>
      resolvePath_reading rd root path = Inr v"
    using walk by (simp add: reduce_keys_falsy)
  have agree: "(\<forall>w k. truthy w \<longrightarrow> rd' w k = rd w k) \<Longrightarrow>
      resolvePath_reading rd' root path = resolvePath_reading rd root path"
    using reduce_keys_agree [of rd' rd root ?ks] by (simp add: resolvePath_reading_def)
  have thrown: "resolvePath_reading rd root path = Inl e \<Longrightarrow> \<exists>w k. truthy w \<and> rd w k = Inl e"
    unfolding resolvePath_reading_def by (rule reduce_keys_Inl)
  have step: "truthy v \<Longrightarrow> reduce_keys rd v (key # keys) = bindE (rd v key) (\<lambda>w. reduce_keys rd w keys)"
    by (simp add: and_get_def)
  show ?thesis
    using walk stop agree thrown step nullish_falsy [of v]
    by (simp add: resolvePath_def)
qed

theorem resolvePath_short_circuit_witness:
  "reduce_keys getprop (Obj [(''a'', Null)]) (take 1 (split_on CHR ''.'' ''a.b'')) = Inr Null
   \<and> \<not> truthy Null \<and> nullish Null
   \<and> resolvePath_reading (\<lambda>w k. if truthy w then getprop w k else Inr (Str ''x'')) (Obj [(''a'', Null)]) ''a.b''
       = Inr Null
   \<and> resolvePath (Obj [(''a'', Null)]) ''a.b'' = Inr Null
   \<and> truthy (Obj [])
   \<and> reduce_keys (\<lambda>w k. if k = ''caller'' then Inl TypeError else getprop w k) (Obj []) [''caller'', ''name'']
       = Inl TypeError
   \<and> resolvePath_reading (\<lambda>w k. if k = ''caller'' then Inl TypeError else getprop w k) (Obj []) ''caller.name''
       = Inl TypeError
   \<and> (\<exists>w k. truthy w \<and> (if k = ''caller'' then Inl TypeError else getprop w k) = Inl TypeError)"
proof -
  have a: "reduce_keys getprop (Obj [(''a'', Null)]) (take 1 (split_on CHR ''.'' ''a.b'')) = Inr Null"
    by (simp add: and_get_def obj_get_def)
  have b: "\<forall>w k. truthy w \<longrightarrow> (if truthy w then getprop w k else Inr (Str ''x'')) = getprop w k"
    by simp
  have c: "resolvePath_reading (\<lambda>w k. if k = ''caller'' then Inl TypeError else getprop w k) (Obj []) ''caller.name''
       = Inl TypeError"
    by (simp add: resolvePath_reading_def and_get_def)
  have n: "\<not> truthy Null" "nullish Null" "truthy (Obj [])"
    by simp_all
  note t1 = resolvePath_short_circuit [where rd = getprop and root = "Obj [(''a'', Null)]" and n = 1
         and path = "''a.b''" and v = Null
         and rd' = "\<lambda>w k. if truthy w then getprop w k else Inr (Str ''x'')"]
  from t1 a n have d: "resolvePath_reading getprop (Obj [(''a'', Null)]) ''a.b'' = Inr Null"
    by blast
  from t1 b have e: "resolvePath_reading (\<lambda>w k. if truthy w then getprop w k else Inr (Str ''x''))
                       (Obj [(''a'', Null)]) ''a.b''
       = resolvePath_reading getprop (Obj [(''a'', Null)]) ''a.b''"
    by blast
  from t1 have f: "resolvePath (Obj [(''a'', Null)]) ''a.b''
       = resolvePath_reading getprop (Obj [(''a'', Null)]) ''a.b''"
    by blast
  note t2 = resolvePath_short_circuit [where rd = "\<lambda>w k. if k = ''caller'' then Inl TypeError else getprop w k"
         and root = "Obj []" and path = "''caller.name''" and e = TypeError
         and v = "Obj []" and key = "''caller''" and keys = "[''name'']"]
  from t2 c have g: "\<exists>w k. truthy w \<and> (if k = ''caller'' then Inl TypeError else getprop w k) = Inl TypeError"
    by blast
  from t2 n have h: "reduce_keys (\<lambda>w k. if k = ''caller'' then Inl TypeError else getprop w k) (Obj [])
                       (''caller'' # [''name''])
       = bindE (if ''caller'' = ''caller'' then Inl TypeError else getprop (Obj []) ''caller'')
           (\<lambda>w. reduce_keys (\<lambda>w k. if k = ''caller'' then Inl TypeError else getprop w k) w [''name''])"
    by blast
  show ?thesis
    using a b c d e f g h n by simp
qed

text \<open>
  The walk of the specification stops at \<^verbatim>\<open>null\<close> and \<^verbatim>\<open>undefined\<close> only. On the
  item \<^verbatim>\<open>{a: 0}\<close> and the path \<^verbatim>\<open>a.b\<close> it reads the property \<^verbatim>\<open>b\<close> of \<^verbatim>\<open>0\<close>,
  which is \<^verbatim>\<open>undefined\<close>; the code yields \<^verbatim>\<open>0\<close>.
\<close>

theorem resolvePath_falsy_counterexample:
  "resolvePath (Obj [(''a'', Num 0)]) ''a.b'' = Inr (Num 0)
   \<and> resolve_spec (Obj [(''a'', Num 0)]) (split_on CHR ''.'' ''a.b'') = Undefined
   \<and> resolvePath (Obj [(''a'', Num 0)]) ''a.b''
       \<noteq> Inr (resolve_spec (Obj [(''a'', Num 0)]) (split_on CHR ''.'' ''a.b''))"
  by (simp add: resolvePath_def resolvePath_reading_def and_get_def obj_get_def)

section \<open>Properties of the row builder\<close>

lemma mapM_Inr_length: "mapM f xs = Inr ys \<Longrightarrow> length ys = length xs"
  by (induction xs arbitrary: ys) (auto simp: bindE_Inr)

lemma mapM_Inr_all: "mapM f xs = Inr ys \<Longrightarrow> x \<in> set xs \<Longrightarrow> \<exists>y. f x = Inr y"
  by (induction xs arbitrary: ys) (auto simp: bindE_Inr)

lemma mapM_total:
  "(\<And>x. x \<in> set xs \<Longrightarrow> \<exists>y. f x = Inr y) \<Longrightarrow> \<exists>ys. mapM f xs = Inr ys"
proof (induction xs)
  case Nil
  show ?case by simp
next
  case (Cons x xs)
  obtain y where y: "f x = Inr y"
    using Cons.prems by auto
  obtain ys where "mapM f xs = Inr ys"
    using Cons by auto
  with y show ?case by simp
qed

text \<open>
  When the loop from index \<open>i\<close> on returns, it has appended one row per remaining item;
  the row of item \<open>i + j\<close> is the ordinal \<open>i + j + 1\<close> followed by the resolved values of
  that item.
\<close>

lemma buildRows_loop_rows:
  "i \<le> length coll \<Longrightarrow> buildRows_loop fs coll i rows = Inr out \<Longrightarrow>
   \<exists>new. out = rows @ new
       \<and> length new = length coll - i
       \<and> (\<forall>j < length new. \<exists>cells. new ! j = Num (int (i + j) + 1) # cells
              \<and> mapM (resolveField (coll ! (i + j))) fs = Inr cells)"
proof (induction fs coll i rows rule: buildRows_loop.induct)
  case (1 fs coll i rows)
  show ?case
  proof (cases "i < length coll")
    case False
    then have "buildRows_loop fs coll i rows = Inr rows"
      by (subst buildRows_loop.simps) simp
    with False "1.prems" show ?thesis by simp
  next
    case True
    have unfold: "buildRows_loop fs coll i rows =
        bindE (mapM (resolveField (coll ! i)) fs)
          (\<lambda>row. buildRows_loop fs coll (i + 1) (rows @ [Num (int i + 1) # row]))"
      using True by (subst buildRows_loop.simps) simp
    with "1.prems"(2) obtain row where
      row: "mapM (resolveField (coll ! i)) fs = Inr row" and
      rest: "buildRows_loop fs coll (i + 1) (rows @ [Num (int i + 1) # row]) = Inr out"
      by (auto simp: bindE_Inr)
    from "1.IH" [OF True _ rest] True
    obtain new where new:
      "out = (rows @ [Num (int i + 1) # row]) @ new"
      "length new = length coll - (i + 1)"
      "\<forall>j < length new. \<exists>cells. new ! j = Num (int (i + 1 + j) + 1) # cells
          \<and> mapM (resolveField (coll ! (i + 1 + j))) fs = Inr cells"
      by auto
    let ?new = "(Num (int i + 1) # row) # new"
    have "out = rows @ ?new"
      using new(1) by simp
    moreover have "length ?new = length coll - i"
      using True new(2) by simp
    moreover have "\<forall>j < length ?new. \<exists>cells. ?new ! j = Num (int (i + j) + 1) # cells
          \<and> mapM (resolveField (coll ! (i + j))) fs = Inr cells"
    proof (intro allI impI)
      fix j
      assume j: "j < length ?new"
      show "\<exists>cells. ?new ! j = Num (int (i + j) + 1) # cells
          \<and> mapM (resolveField (coll ! (i + j))) fs = Inr cells"
      proof (cases j)
        case 0
        then show ?thesis using row by simp
      next
        case (Suc k)
        with j have "k < length new" by simp
        with new(3) obtain cells where
          "new ! k = Num (int (i + 1 + k) + 1) # cells"
          "mapM (resolveField (coll ! (i + 1 + k))) fs = Inr cells"
          by blast
        with Suc show ?thesis by simp
      qed
    qed
    ultimately show ?thesis by blast
  qed
qed

text \<open>The loop returns when the resolvers return on every item.\<close>

lemma buildRows_loop_total:
  "(\<forall>j < length coll. \<exists>cells. mapM (resolveField (coll ! j)) fs = Inr cells) \<Longrightarrow>
   \<exists>out. buildRows_loop fs coll i rows = Inr out"
proof (induction fs coll i rows rule: buildRows_loop.induct)
  case (1 fs coll i rows)
  show ?case
  proof (cases "i < length coll")
    case False
    then have "buildRows_loop fs coll i rows = Inr rows"
      by (subst buildRows_loop.simps) simp
    then show ?thesis by blast
  next
    case True
    with "1.prems" obtain row where row: "mapM (resolveField (coll ! i)) fs = Inr row"
      by blast
    from "1.IH" [OF True "1.prems", of row]
    obtain out where "buildRows_loop fs coll (i + 1) (rows @ [Num (int i + 1) # row]) = Inr out"
      by blast
    with True row have "buildRows_loop fs coll i rows = Inr out"
      by (subst buildRows_loop.simps) simp
    then show ?thesis by blast
  qed
qed

lemma buildRows_example:
  "buildRows (ListofObj_Base_new [(''Label'', Path ''name'')]
               [Obj [(''name'', Str ''A'')], Obj [(''name'', Null)], Obj []])
     = Inr [[Num 1, Str ''A''], [Num 2, Null], [Num 3, Undefined]]"
  by (simp add: buildRows_def ListofObj_Base_new_def buildRows_loop.simps resolveField_def
      resolvePath_def resolvePath_reading_def and_get_def obj_get_def)

text \<open>A resolver function that throws makes \<open>buildRows\<close> throw: no row is produced.\<close>

lemma buildRows_resolver_throws:
  "buildRows (ListofObj_Base_new [(''Content'', Fn (\<lambda>el. Inl TypeError))] [Obj []]) = Inl TypeError"
  by (simp add: buildRows_def ListofObj_Base_new_def buildRows_loop.simps resolveField_def)

text \<open>
  C6. Whenever \<open>buildRows\<close> returns rows, there is exactly one row per item of the
  collection, none filtered out, and the row at index \<open>i\<close> is the ordinal \<open>i + 1\<close>
  followed by one cell per schema entry, the resolved values of item \<open>i\<close>. It returns
  rows exactly when every resolver of the schema returns a value on every item; the
  resolvers are called unguarded, so an exception of one of them is the exception of
  \<open>buildRows\<close>.
\<close>

theorem buildRows_length_ordinals:
  "(buildRows b = Inr rows \<longrightarrow>
      length rows = length (collection b)
      \<and> (\<forall>i < length rows. \<exists>cells. rows ! i = Num (int i + 1) # cells
             \<and> length cells = length (fields' b)
             \<and> mapM (resolveField (collection b ! i)) (fields' b) = Inr cells))
   \<and> ((\<forall>item \<in> set (collection b). \<forall>r \<in> set (fields' b). \<exists>v. resolveField item r = Inr v)
        \<longrightarrow> (\<exists>rows. buildRows b = Inr rows))
   \<and> (buildRows b = Inr rows \<longrightarrow>
        (\<forall>item \<in> set (collection b). \<forall>r \<in> set (fields' b). \<exists>v. resolveField item r = Inr v))"
proof (intro conjI impI)
  assume r: "buildRows b = Inr rows"
  from buildRows_loop_rows [of 0 "collection b" "fields' b" "[]" rows] r
  have len: "length rows = length (collection b)"
    and cells: "\<forall>j < length rows. \<exists>cells. rows ! j = Num (int j + 1) # cells
          \<and> mapM (resolveField (collection b ! j)) (fields' b) = Inr cells"
    by (auto simp: buildRows_def)
  show "length rows = length (collection b)"
    by (rule len)
  show "\<forall>i < length rows. \<exists>cells. rows ! i = Num (int i + 1) # cells
             \<and> length cells = length (fields' b)
             \<and> mapM (resolveField (collection b ! i)) (fields' b) = Inr cells"
    using cells by (metis mapM_Inr_length)
  show "\<forall>item \<in> set (collection b). \<forall>r \<in> set (fields' b). \<exists>v. resolveField item r = Inr v"
  proof (intro ballI)
    fix item r
    assume "item \<in> set (collection b)" and rf: "r \<in> set (fields' b)"
    then obtain i where i: "i < length (collection b)" "collection b ! i = item"
      by (auto simp: in_set_conv_nth)
    with len cells obtain cs where "mapM (resolveField item) (fields' b) = Inr cs"
      by auto
    from mapM_Inr_all [OF this rf] show "\<exists>v. resolveField item r = Inr v" .
  qed
next
  assume a: "\<forall>item \<in> set (collection b). \<forall>r \<in> set (fields' b). \<exists>v. resolveField item r = Inr v"
  have "\<forall>j < length (collection b). \<exists>cells. mapM (resolveField (collection b ! j)) (fields' b) = Inr cells"
  proof (intro allI impI)
    fix j
    assume "j < length (collection b)"
    then have "collection b ! j \<in> set (collection b)" by simp
    with a have "\<And>r. r \<in> set (fields' b) \<Longrightarrow> \<exists>v. resolveField (collection b ! j) r = Inr v"
      by blast
    then show "\<exists>cells. mapM (resolveField (collection b ! j)) (fields' b) = Inr cells"
      by (rule mapM_total)
  qed
  from buildRows_loop_total [OF this] show "\<exists>rows. buildRows b = Inr rows"
    by (simp add: buildRows_def)
qed

theorem buildRows_length_ordinals_witness:
  "buildRows (ListofObj_Base_new [(''Label'', Path ''name'')]
               [Obj [(''name'', Str ''A'')], Obj [(''name'', Null)], Obj []])
     = Inr [[Num 1, Str ''A''], [Num 2, Null], [Num 3, Undefined]]
   \<and> resolveField (Obj [(''name'', Str ''A'')]) (Path ''name'') = Inr (Str ''A'')
   \<and> resolveField (Obj [(''name'', Null)]) (Path ''name'') = Inr Null
   \<and> resolveField (Obj []) (Path ''name'') = Inr Undefined
   \<and> length [[Num 1, Str ''A''], [Num 2, Null], [Num 3, Undefined]] = 3
   \<and> (2::nat) < length [[Num 1, Str ''A''], [Num 2, Null], [Num 3, Undefined]]
   \<and> (\<exists>cells. [[Num 1, Str ''A''], [Num 2, Null], [Num 3, Undefined]] ! 2 = Num (int 2 + 1) # cells)"
proof -
  let ?b = "ListofObj_Base_new [(''Label'', Path ''name'')]
               [Obj [(''name'', Str ''A'')], Obj [(''name'', Null)], Obj []]"
  let ?rows = "[[Num 1, Str ''A''], [Num 2, Null], [Num 3, Undefined]]"
  note t = buildRows_length_ordinals [where b = ?b and rows = ?rows]
  have r: "buildRows ?b = Inr ?rows"
    by (rule buildRows_example)
  from t r have len: "length ?rows = length (collection ?b)"
    and all: "\<forall>item \<in> set (collection ?b). \<forall>r \<in> set (fields' ?b). \<exists>v. resolveField item r = Inr v"
    by blast+
  from all have h: "\<forall>item \<in> set [Obj [(''name'', Str ''A'')], Obj [(''name'', Null)], Obj []].
        \<forall>r \<in> set [Path ''name'']. \<exists>v. resolveField item r = Inr v"
    by (simp add: ListofObj_Base_new_def)
  from t all have "\<exists>rows. buildRows ?b = Inr rows"
    by blast
  with r h len show ?thesis
    by (simp add: ListofObj_Base_new_def resolveField_def resolvePath_def resolvePath_reading_def
        and_get_def obj_get_def)
qed

section \<open>Properties of the cell paths\<close>

subsection \<open>Trimming\<close>

lemma not_ws_dquote: "\<not> isWhiteSpace dquote"
  by (simp add: isWhiteSpace_def dquote_def)

lemma trim_Nil: "trim [] = []"
  by (simp add: trim_def)

lemma dropWhile_fixed: "xs \<noteq> [] \<Longrightarrow> \<not> P (hd xs) \<Longrightarrow> dropWhile P xs = xs"
  by (cases xs) simp_all

text \<open>A text that neither starts nor ends with white space is left as it is.\<close>

lemma trim_fixed:
  assumes "s \<noteq> []" "\<not> isWhiteSpace (hd s)" "\<not> isWhiteSpace (last s)"
  shows "trim s = s"
proof -
  from assms(1,2) have a: "dropWhile isWhiteSpace s = s"
    by (rule dropWhile_fixed)
  from assms(1) have "rev s \<noteq> []" by simp
  moreover from assms(1,3) have "\<not> isWhiteSpace (hd (rev s))"
    by (simp add: hd_rev)
  ultimately have "dropWhile isWhiteSpace (rev s) = rev s"
    by (rule dropWhile_fixed)
  with a show ?thesis by (simp add: trim_def)
qed

lemma trim_quoted: "trim (dquote # xs @ [dquote]) = dquote # xs @ [dquote]"
  by (rule trim_fixed) (simp_all add: not_ws_dquote)

lemma trim_trim: "trim (trim s) = trim s"
proof (cases "trim s = []")
  case True
  then show ?thesis by (simp add: trim_Nil)
next
  case False
  let ?t = "dropWhile isWhiteSpace s"
  let ?u = "dropWhile isWhiteSpace (rev ?t)"
  have ts: "trim s = rev ?u"
    by (simp add: trim_def)
  with False have u: "?u \<noteq> []" by simp
  then have t: "?t \<noteq> []"
    by (metis dropWhile.simps(1) rev.simps(1))
  have "\<not> isWhiteSpace (hd ?u)"
    using u by (rule hd_dropWhile)
  then have l: "\<not> isWhiteSpace (last (trim s))"
    using u ts by (simp add: last_rev)
  have "rev ?t = takeWhile isWhiteSpace (rev ?t) @ ?u" by simp
  then have "?t = rev ?u @ rev (takeWhile isWhiteSpace (rev ?t))"
    by (metis rev_append rev_rev_ident)
  then have "hd ?t = hd (rev ?u)"
    using u by (metis hd_append2 rev_is_Nil_conv)
  moreover have "\<not> isWhiteSpace (hd ?t)"
    using t by (rule hd_dropWhile)
  ultimately have h: "\<not> isWhiteSpace (hd (trim s))"
    using ts by simp
  show ?thesis using False h l by (rule trim_fixed)
qed

subsection \<open>The CSV cell\<close>

lemma attribute_line_LF: "attribute_line item = Inr l \<Longrightarrow> LF \<in> set l"
  by (auto simp: attribute_line_def bindE_Inr)

lemma CSVlistAttributes_loop_LF:
  "CSVlistAttributes_loop arr is out = Inr r \<Longrightarrow> r = out \<or> LF \<in> set r"
proof (induction "is" arbitrary: out)
  case Nil
  then show ?case by simp
next
  case (Cons i "is")
  from Cons.prems obtain item l where
    l: "attribute_line item = Inr l" and
    rest: "CSVlistAttributes_loop arr is (out @ l) = Inr r"
    by (auto simp: bindE_Inr)
  from Cons.IH [OF rest] attribute_line_LF [OF l] show ?case by auto
qed

lemma CSVlistAttributes_LF: "CSVlistAttributes arr = Inr r \<Longrightarrow> r = [] \<or> LF \<in> set r"
  by (auto simp: CSVlistAttributes_def bindE_Inr dest: CSVlistAttributes_loop_LF)

lemma formatValue_Str: "formatValue (Str x) = Inr (trim x)"
  by (simp add: formatValue_def)

lemma escapeForCSV_cases:
  "escapeForCSV s = (if needs_quoting s then [dquote] @ double_quotes s @ [dquote] else s)"
  by (simp add: escapeForCSV_def regex_test_class_needs_quoting replace_all_double_quotes)

text \<open>
  The text that \<open>formatCSVcellvalues\<close> hands to the encoder comes back from it either
  wrapped in double quotes or already trimmed, so the \<open>formatValue\<close> call that
  \<^verbatim>\<open>render\<close> wraps around the encoder finds nothing to trim.
\<close>

lemma trim_escaped_cell:
  assumes "formatCSVcellvalues v = Inr s"
  shows "trim (escapeForCSV s) = escapeForCSV s"
proof (cases "needs_quoting s")
  case True
  then show ?thesis by (simp add: escapeForCSV_cases trim_quoted)
next
  case False
  then have nolf: "LF \<notin> set s"
    by (simp add: needs_quoting_def)
  have "trim s = s"
  proof (cases "typeof_object v")
    case True
    with assms have "CSVlistAttributes v = Inr s"
      by (simp add: formatCSVcellvalues_def)
    with nolf have "s = []"
      using CSVlistAttributes_LF by blast
    then show ?thesis by (simp add: trim_Nil)
  next
    case False
    with assms have "s = trim (to_string v)"
      by (simp add: formatCSVcellvalues_def)
    then show ?thesis by (simp add: trim_trim)
  qed
  with False show ?thesis by (simp add: escapeForCSV_cases)
qed

lemma render_cell_escaped:
  "render_cell v = bindE (formatCSVcellvalues v) (\<lambda>s. Inr (escapeForCSV s))"
proof (cases "formatCSVcellvalues v")
  case (Inl e)
  then show ?thesis by (simp add: render_cell_def)
next
  case (Inr s)
  then show ?thesis by (simp add: render_cell_def formatValue_Str trim_escaped_cell)
qed

text \<open>
  C2. In the CSV export the text of a cell is \<open>escapeForCSV\<close> applied to the text that
  the CSV coercion \<open>formatCSVcellvalues\<close> makes of the value, and nothing changes it after
  the escaping: the cell callback of \<^verbatim>\<open>render\<close>, which passes the escaped text
  through \<open>formatValue\<close> once more, yields exactly the escaped text (and throws exactly
  when the coercion throws).
\<close>

theorem render_cell_escape_last:
  "render_cell v = bindE (formatCSVcellvalues v) (\<lambda>s. Inr (escapeForCSV s))
   \<and> bindE (formatCSVcellvalues v) (\<lambda>s. formatValue (Str (escapeForCSV s)))
       = bindE (formatCSVcellvalues v) (\<lambda>s. Inr (escapeForCSV s))"
  using render_cell_escaped [of v] by (simp add: render_cell_def)

text \<open>
  C10. The cell formatter takes every non-null value of type object for a collection of
  name/value pairs. A plain object that is not array-like (it has no \<^verbatim>\<open>length\<close>
  property) and not iterable has no elements, so it formats to the empty text and not to
  its trimmed string form \<^verbatim>\<open>[object Object]\<close>; an array formats to the pair texts of
  its elements joined by \<^verbatim>\<open>"; "\<close>, and so does every plain object, with the elements
  that \<^verbatim>\<open>Array.from\<close> reads from it.
\<close>

theorem formatValue_plain_object:
  assumes "map_of ps ''length'' = None"
  shows "formatValue (Obj ps) = Inr []
         \<and> formatValue (Obj ps) \<noteq> Inr (trim (to_string (Obj ps)))
         \<and> formatValue (Arr xs) = bindE (mapM pair_text xs) (\<lambda>ts. Inr (join ''; '' ts))
         \<and> formatValue (Obj qs)
             = bindE (array_from (Obj qs)) (\<lambda>xs. bindE (mapM pair_text xs) (\<lambda>ts. Inr (join ''; '' ts)))"
proof (intro conjI)
  show "formatValue (Obj qs)
          = bindE (array_from (Obj qs)) (\<lambda>xs. bindE (mapM pair_text xs) (\<lambda>ts. Inr (join ''; '' ts)))"
    by (simp add: formatValue_def)
  show e: "formatValue (Obj ps) = Inr []"
    using assms by (simp add: formatValue_def obj_get_def to_length_def)
  have "trim (to_string (Obj ps)) = ''[object Object]''"
    by (simp add: trim_def isWhiteSpace_def)
  with e show "formatValue (Obj ps) \<noteq> Inr (trim (to_string (Obj ps)))"
    by simp
  show "formatValue (Arr xs) = bindE (mapM pair_text xs) (\<lambda>ts. Inr (join ''; '' ts))"
    by (simp add: formatValue_def)
qed

theorem formatValue_plain_object_witness:
  "map_of [(''a'', Num 1)] ''length'' = None
   \<and> formatValue (Obj [(''a'', Num 1)]) = Inr []
   \<and> trim (to_string (Obj [(''a'', Num 1)])) = ''[object Object]''
   \<and> formatValue (Arr [Obj [(''name'', Str ''id''), (''value'', Str ''7'')],
                        Obj [(''name'', Str ''class''), (''value'', Str ''x'')]])
       = Inr ''id: 7; class: x''"
  using formatValue_plain_object [where ps = "[(''a'', Num 1)]"
          and xs = "[Obj [(''name'', Str ''id''), (''value'', Str ''7'')],
                     Obj [(''name'', Str ''class''), (''value'', Str ''x'')]]"
          and qs = "[(''a'', Num 1)]"]
  by (simp add: trim_def isWhiteSpace_def pair_text_def obj_get_def)

subsection \<open>Evaluation at concrete inputs\<close>

lemmas new_defs = ListofObj_to_DelimitedText_new_def ListofObj_to_Table_new_def ListofObj_Base_new_def
  ListofObj_Base.extend_def ListofObj_to_DelimitedText.fields_def ListofObj_to_Table.fields_def
  nullish_coalesce_def setTitle_def

lemmas eval_defs = render_def Let_def new_defs buildRows_def buildRows_loop.simps resolveField_def
  resolvePath_def resolvePath_reading_def and_get_def obj_get_def csv_options_def title_line_def
  render_cell_def formatCSVcellvalues_def CSVlistAttributes_def string_of_int_def digits.simps
  digit_char_def escapeForCSV_def regex_test_class_def formatValue_def trim_def isWhiteSpace_def
  dquote_def LF_def CR_def table_render_def

text \<open>
  C1, at the absent values. The shared formatter makes the empty text of \<^verbatim>\<open>null\<close>
  and \<^verbatim>\<open>undefined\<close>. The CSV coercion has no such case: \<^verbatim>\<open>null\<close> is of type object
  and reading its \<^verbatim>\<open>length\<close> throws, \<^verbatim>\<open>undefined\<close> prints as the text
  \<^verbatim>\<open>undefined\<close>. So the schema \<^verbatim>\<open>{"Label": "name"}\<close> over \<^verbatim>\<open>[{name: null}]\<close>
  makes both renderers throw, and over \<^verbatim>\<open>[{}]\<close> the CSV cell is \<^verbatim>\<open>undefined\<close>.
\<close>

theorem null_undefined_csv_cells:
  "formatValue Null = Inr [] \<and> formatValue Undefined = Inr []
   \<and> formatCSVcellvalues Null = Inl TypeError
   \<and> render_cell Null = Inl TypeError
   \<and> render_cell Undefined = Inr ''undefined''
   \<and> render (ListofObj_to_DelimitedText_new [(''Label'', Path ''name'')] [Obj [(''name'', Null)]]
               \<lparr> columnDelimiter_opt = Some '','', rowDelimiter_opt = Some [CR, LF] \<rparr>)
       = Inl TypeError
   \<and> table_render createObjectURL
         (ListofObj_to_Table_new [(''Label'', Path ''name'')] [Obj [(''name'', Null)]]) None
       = Inl TypeError
   \<and> render (ListofObj_to_DelimitedText_new [(''Label'', Path ''name'')] [Obj []]
               \<lparr> columnDelimiter_opt = Some '','', rowDelimiter_opt = Some [CR, LF] \<rparr>)
       = Inr (''No.,Label'' @ [CR, LF] @ ''1,undefined'' @ [CR, LF])"
  by (simp add: eval_defs)

section \<open>Properties of the renderers\<close>

text \<open>The rows loop only appends to the output it is given.\<close>

lemma render_rows_acc:
  "render_rows f cd rd rows (out @ acc) = bindE (render_rows f cd rd rows acc) (\<lambda>r. Inr (out @ r))"
proof (induction rows arbitrary: acc)
  case Nil
  show ?case by simp
next
  case (Cons row rows)
  show ?case
  proof (cases "mapM f row")
    case (Inl e)
    then show ?thesis by simp
  next
    case (Inr cells)
    with Cons [of "acc @ join cd cells @ rd"] show ?thesis by simp
  qed
qed

lemma render_rows_cells:
  "render_rows f cd rd rows [] =
     bindE (mapM (mapM f) rows) (\<lambda>cellss. Inr (concat (map (\<lambda>cells. join cd cells @ rd) cellss)))"
proof (induction rows)
  case Nil
  show ?case by simp
next
  case (Cons row rows)
  show ?case
  proof (cases "mapM f row")
    case (Inl e)
    then show ?thesis by simp
  next
    case (Inr cells)
    have "render_rows f cd rd (row # rows) [] = render_rows f cd rd rows ((join cd cells @ rd) @ [])"
      using Inr by simp
    also have "\<dots> = bindE (render_rows f cd rd rows []) (\<lambda>r. Inr ((join cd cells @ rd) @ r))"
      by (rule render_rows_acc)
    finally show ?thesis
      using Inr Cons by (cases "mapM (mapM f) rows") simp_all
  qed
qed

lemma render_rows_from:
  "render_rows f cd rd rows pre =
     bindE (mapM (mapM f) rows) (\<lambda>cellss. Inr (pre @ concat (map (\<lambda>cells. join cd cells @ rd) cellss)))"
  using render_rows_acc [of f cd rd rows pre "[]"]
  by (simp add: render_rows_cells bindE_assoc)

lemma render_body:
  "render d =
     bindE (buildRows d) (\<lambda>rows.
     bindE (mapM (mapM render_cell) rows) (\<lambda>cellss.
     Inr (title_line (title d) (rowDelimiter d)
          @ join (columnDelimiter d) (header d) @ rowDelimiter d
          @ concat (map (\<lambda>cells. join (columnDelimiter d) cells @ rowDelimiter d) cellss))))"
  by (simp add: render_def Let_def render_rows_from)

lemma render_plain_body:
  "render_plain d =
     bindE (buildRows d) (\<lambda>rows.
     bindE (mapM (mapM formatValue) rows) (\<lambda>cellss.
     Inr (title_line (title d) (rowDelimiter d)
          @ join (columnDelimiter d) (header d) @ rowDelimiter d
          @ concat (map (\<lambda>cells. join (columnDelimiter d) cells @ rowDelimiter d) cellss))))"
  by (simp add: render_plain_def Let_def render_rows_from)

lemma render_cell_fun:
  "render_cell = (\<lambda>v. bindE (formatCSVcellvalues v) (\<lambda>s. Inr (escapeForCSV s)))"
  by (rule ext) (rule render_cell_escaped)

lemma buildRows_setTitle: "buildRows (setTitle t b) = buildRows b"
  by (simp add: buildRows_def setTitle_def)

lemma render_setTitle:
  "render (setTitle t d) = bindE (render (setTitle [] d)) (\<lambda>out. Inr (title_line t (rowDelimiter d) @ out))"
  by (simp add: render_body buildRows_setTitle bindE_assoc)
     (simp add: setTitle_def title_line_def)

lemma render_new_title:
  "render (setTitle t (ListofObj_to_DelimitedText_new sch coll opts))
   = bindE (render (ListofObj_to_DelimitedText_new sch coll opts))
       (\<lambda>out. Inr (title_line t (nullish_coalesce (rowDelimiter_opt opts) ''<BR>'') @ out))"
proof -
  have "setTitle [] (ListofObj_to_DelimitedText_new sch coll opts)
          = ListofObj_to_DelimitedText_new sch coll opts"
    by (simp add: new_defs)
  moreover have "rowDelimiter (ListofObj_to_DelimitedText_new sch coll opts)
                   = nullish_coalesce (rowDelimiter_opt opts) ''<BR>''"
    by (simp add: new_defs)
  ultimately show ?thesis
    using render_setTitle [of t "ListofObj_to_DelimitedText_new sch coll opts"] by simp
qed

text \<open>
  C3, as the code has it. For every delimited-text object, whatever its delimiters,
  \<^verbatim>\<open>render\<close> of the toolset emits the title line, the header labels joined as they
  are, and then each row with every cell passed through the CSV coercion and
  \<open>escapeForCSV\<close>: the delimiters only separate, and the escaping is part of
  \<^verbatim>\<open>render\<close>. The \<^verbatim>\<open>render\<close> of the stand-alone class file emits the \<open>formatValue\<close>
  text of every cell, unescaped.
\<close>

theorem render_always_escapes:
  "render d =
     bindE (buildRows d) (\<lambda>rows.
     bindE (mapM (mapM (\<lambda>v. bindE (formatCSVcellvalues v) (\<lambda>s. Inr (escapeForCSV s)))) rows) (\<lambda>cellss.
     Inr (title_line (title d) (rowDelimiter d)
          @ join (columnDelimiter d) (header d) @ rowDelimiter d
          @ concat (map (\<lambda>cells. join (columnDelimiter d) cells @ rowDelimiter d) cellss))))
   \<and> render_plain d =
     bindE (buildRows d) (\<lambda>rows.
     bindE (mapM (mapM formatValue) rows) (\<lambda>cellss.
     Inr (title_line (title d) (rowDelimiter d)
          @ join (columnDelimiter d) (header d) @ rowDelimiter d
          @ concat (map (\<lambda>cells. join (columnDelimiter d) cells @ rowDelimiter d) cellss))))"
  using render_body [of d] render_plain_body [of d] by (simp add: render_cell_fun)

text \<open>
  With the column delimiter \<^verbatim>\<open>|\<close> and the default row delimiter \<^verbatim>\<open><BR>\<close> of the
  plain-text display, the cell \<^verbatim>\<open>a,b\<close> is still written in double quotes.
\<close>

theorem render_escapes_counterexample:
  "render (ListofObj_to_DelimitedText_new [(''X'', Path ''x'')] [Obj [(''x'', Str ''a,b'')]]
             \<lparr> columnDelimiter_opt = Some ''|'', rowDelimiter_opt = None \<rparr>)
     = Inr (''No.|X<BR>1|'' @ [dquote] @ ''a,b'' @ [dquote] @ ''<BR>'')
   \<and> formatValue (Str ''a,b'') = Inr ''a,b''
   \<and> render (ListofObj_to_DelimitedText_new [(''X'', Path ''x'')] [Obj [(''x'', Str ''a,b'')]]
             \<lparr> columnDelimiter_opt = Some ''|'', rowDelimiter_opt = None \<rparr>)
     \<noteq> Inr ''No.|X<BR>1|a,b<BR>''"
  by (simp add: eval_defs)

subsection \<open>The table and its CSV sibling\<close>

lemma table_render_csv:
  assumes "table_render url t fn = Inr (html, t')"
  shows "render (ListofObj_to_DelimitedText_new (schema t) (collection t) csv_options) = Inr (objCSV t')
         \<and> (\<exists>pre. html = pre @ createCSVBloblink url (objCSV t') (nullish_coalesce fn ''download.csv''))"
  using assms by (auto simp: table_render_def Let_def bindE_Inr)

lemma table_render_example:
  "\<exists>html t'.
     table_render (\<lambda>s. ''blob:1'')
       (setTitle [] (ListofObj_to_Table_new [(''Label'', Path ''name'')] [Obj [(''name'', Str ''A'')]])) None
       = Inr (html, t')
     \<and> objCSV t' = ''No.,Label'' @ [CR, LF] @ ''1,A'' @ [CR, LF]"
  by (simp add: eval_defs)

text \<open>
  C5. When the table renders, the CSV text it stores in \<^verbatim>\<open>objCSV\<close> and links for
  download is the text a stand-alone delimited-text report over the same schema and
  collection renders with the comma and CRLF delimiters, header and body; a title set
  on the stand-alone report only puts its title line in front.
\<close>

theorem csv_sibling_equals_standalone:
  assumes "table_render createObjectURL (setTitle ttl (ListofObj_to_Table_new sch coll)) csvFileName
             = Inr (html, t')"
  shows "render (ListofObj_to_DelimitedText_new sch coll
                  \<lparr> columnDelimiter_opt = Some '','', rowDelimiter_opt = Some [CR, LF] \<rparr>)
           = Inr (objCSV t')
         \<and> render (setTitle ttl' (ListofObj_to_DelimitedText_new sch coll
                  \<lparr> columnDelimiter_opt = Some '','', rowDelimiter_opt = Some [CR, LF] \<rparr>))
           = Inr (title_line ttl' [CR, LF] @ objCSV t')
         \<and> (\<exists>pre. html = pre @ createCSVBloblink createObjectURL (objCSV t')
                                 (nullish_coalesce csvFileName ''download.csv''))"
proof -
  let ?t = "setTitle ttl (ListofObj_to_Table_new sch coll)"
  let ?opts = "\<lparr> columnDelimiter_opt = Some '','', rowDelimiter_opt = Some [CR, LF] \<rparr>"
  have sc: "schema ?t = sch" "collection ?t = coll"
    by (simp_all add: new_defs)
  have o: "csv_options = ?opts"
    by (simp add: csv_options_def)
  from table_render_csv [OF assms] sc o
  have a: "render (ListofObj_to_DelimitedText_new sch coll ?opts) = Inr (objCSV t')"
    and c: "\<exists>pre. html = pre @ createCSVBloblink createObjectURL (objCSV t')
                                  (nullish_coalesce csvFileName ''download.csv'')"
    by simp_all
  have b: "render (setTitle ttl' (ListofObj_to_DelimitedText_new sch coll ?opts))
           = Inr (title_line ttl' [CR, LF] @ objCSV t')"
    using a by (simp add: render_new_title nullish_coalesce_def)
  show ?thesis using a b c by blast
qed

theorem csv_sibling_equals_standalone_witness:
  "\<exists>html t'.
     table_render (\<lambda>s. ''blob:1'')
       (setTitle [] (ListofObj_to_Table_new [(''Label'', Path ''name'')] [Obj [(''name'', Str ''A'')]])) None
       = Inr (html, t')
     \<and> render (ListofObj_to_DelimitedText_new [(''Label'', Path ''name'')] [Obj [(''name'', Str ''A'')]]
                \<lparr> columnDelimiter_opt = Some '','', rowDelimiter_opt = Some [CR, LF] \<rparr>)
       = Inr (objCSV t')
     \<and> objCSV t' = ''No.,Label'' @ [CR, LF] @ ''1,A'' @ [CR, LF]"
proof -
  obtain html t' where
    h: "table_render (\<lambda>s. ''blob:1'')
          (setTitle [] (ListofObj_to_Table_new [(''Label'', Path ''name'')] [Obj [(''name'', Str ''A'')]])) None
          = Inr (html, t')"
    and c: "objCSV t' = ''No.,Label'' @ [CR, LF] @ ''1,A'' @ [CR, LF]"
    using table_render_example by blast
  from csv_sibling_equals_standalone [OF h] h c show ?thesis by blast
qed

subsection \<open>The header row\<close>

lemma table_cells_prefix: "table_cells cells acc = Inr r \<Longrightarrow> \<exists>b. r = acc @ b"
proof (induction cells arbitrary: acc)
  case Nil
  then show ?case by simp
next
  case (Cons cell cells)
  from Cons.prems obtain t where "table_cells cells (acc @ ''<TD>'' @ t @ ''</TD>'') = Inr r"
    by (auto simp: bindE_Inr)
  from Cons.IH [OF this] show ?case by auto
qed

lemma table_rows_prefix: "table_rows rows acc = Inr r \<Longrightarrow> \<exists>b. r = acc @ b"
proof (induction rows arbitrary: acc)
  case Nil
  then show ?case by simp
next
  case (Cons row rows)
  from Cons.prems obtain h where
    h: "table_cells row (acc @ ''<TR>'') = Inr h" and
    r: "table_rows rows (h @ ''</TR>'') = Inr r"
    by (auto simp: bindE_Inr)
  from table_cells_prefix [OF h] Cons.IH [OF r] show ?case by auto
qed

lemma table_render_prefix:
  assumes "table_render url t fn = Inr (html, t')"
  shows "\<exists>rest. html = (if title t \<noteq> [] then ''<H1>'' @ title t @ ''</H1>'' else [])
                  @ tableStyle ''#FFC107'' @ ''<TABLE><TR>''
                  @ concat (map (\<lambda>h. ''<TH>'' @ h @ ''</TH>'') (header t)) @ ''</TR>'' @ rest"
proof -
  define pre where "pre = ((((if title t \<noteq> [] then ''<H1>'' @ title t @ ''</H1>'' else [])
                  @ tableStyle ''#FFC107'') @ ''<TABLE><TR>'')
                  @ concat (map (\<lambda>h. ''<TH>'' @ h @ ''</TH>'') (header t))) @ ''</TR>''"
  have "table_render url t fn =
          bindE (buildRows t) (\<lambda>rows.
          bindE (table_rows rows pre) (\<lambda>html.
          bindE (render (ListofObj_to_DelimitedText_new (schema t) (collection t) csv_options)) (\<lambda>csv.
          Inr ((html @ ''</TABLE><BR>'')
                 @ createCSVBloblink url (objCSV (t\<lparr>objCSV := csv\<rparr>)) (nullish_coalesce fn ''download.csv''),
               t\<lparr>objCSV := csv\<rparr>))))"
    unfolding table_render_def Let_def pre_def by (rule refl)
  with assms obtain rows body csv where
    r: "table_rows rows pre = Inr body" and
    h: "html = (body @ ''</TABLE><BR>'') @ createCSVBloblink url csv (nullish_coalesce fn ''download.csv'')"
    by (auto simp: bindE_Inr)
  from table_rows_prefix [OF r] obtain b where "body = pre @ b"
    by blast
  with h have "html = pre @ (b @ ''</TABLE><BR>'' @ createCSVBloblink url csv (nullish_coalesce fn ''download.csv''))"
    by simp
  then show ?thesis
    unfolding pre_def by (metis append.assoc)
qed

text \<open>
  C8. For every schema and collection the header is the label \<^verbatim>\<open>No.\<close> followed by the
  labels of the schema in schema order, in the base object and in both renderers, and
  it is what the renderers emit as header row: the delimited text starts (after the
  title line) with these labels joined by the column delimiter, the table markup with
  one header cell for each. The schema \<^verbatim>\<open>{"Label": "name"}\<close> gives \<^verbatim>\<open>No.\<close>,
  \<^verbatim>\<open>Label\<close>.
\<close>

theorem rendered_header:
  "header (ListofObj_Base_new sch coll) = ''No.'' # map fst sch
   \<and> header (ListofObj_to_DelimitedText_new sch coll opts) = ''No.'' # map fst sch
   \<and> header (ListofObj_to_Table_new sch coll) = ''No.'' # map fst sch
   \<and> (render (setTitle t (ListofObj_to_DelimitedText_new sch coll opts)) = Inr out
        \<longrightarrow> (\<exists>body. out = title_line t (nullish_coalesce (rowDelimiter_opt opts) ''<BR>'')
                      @ join (nullish_coalesce (columnDelimiter_opt opts) '','') (''No.'' # map fst sch)
                      @ nullish_coalesce (rowDelimiter_opt opts) ''<BR>'' @ body))
   \<and> (table_render createObjectURL (setTitle t (ListofObj_to_Table_new sch coll)) csvFileName = Inr (html, t')
        \<longrightarrow> (\<exists>rest. html = (if t \<noteq> [] then ''<H1>'' @ t @ ''</H1>'' else []) @ tableStyle ''#FFC107''
                      @ ''<TABLE><TR>'' @ concat (map (\<lambda>h. ''<TH>'' @ h @ ''</TH>'') (''No.'' # map fst sch))
                      @ ''</TR>'' @ rest))"
proof (intro conjI impI)
  show "header (ListofObj_Base_new sch coll) = ''No.'' # map fst sch"
    by (simp add: new_defs)
  show "header (ListofObj_to_DelimitedText_new sch coll opts) = ''No.'' # map fst sch"
    by (simp add: new_defs)
  show "header (ListofObj_to_Table_new sch coll) = ''No.'' # map fst sch"
    by (simp add: new_defs)
next
  let ?d = "setTitle t (ListofObj_to_DelimitedText_new sch coll opts)"
  assume "render ?d = Inr out"
  then obtain cellss where
    "out = title_line (title ?d) (rowDelimiter ?d) @ join (columnDelimiter ?d) (header ?d) @ rowDelimiter ?d
           @ concat (map (\<lambda>cells. join (columnDelimiter ?d) cells @ rowDelimiter ?d) cellss)"
    by (auto simp: render_body [of ?d] bindE_Inr)
  then show "\<exists>body. out = title_line t (nullish_coalesce (rowDelimiter_opt opts) ''<BR>'')
                      @ join (nullish_coalesce (columnDelimiter_opt opts) '','') (''No.'' # map fst sch)
                      @ nullish_coalesce (rowDelimiter_opt opts) ''<BR>'' @ body"
    by (simp add: new_defs)
next
  let ?t = "setTitle t (ListofObj_to_Table_new sch coll)"
  have ti: "title ?t = t" and he: "header ?t = ''No.'' # map fst sch"
    by (simp_all add: new_defs)
  assume "table_render createObjectURL ?t csvFileName = Inr (html, t')"
  from table_render_prefix [OF this]
  show "\<exists>rest. html = (if t \<noteq> [] then ''<H1>'' @ t @ ''</H1>'' else []) @ tableStyle ''#FFC107''
                      @ ''<TABLE><TR>'' @ concat (map (\<lambda>h. ''<TH>'' @ h @ ''</TH>'') (''No.'' # map fst sch))
                      @ ''</TR>'' @ rest"
    unfolding ti he .
qed

theorem rendered_header_witness:
  "\<exists>html t'.
     render (setTitle [] (ListofObj_to_DelimitedText_new [(''Label'', Path ''name'')] [Obj [(''name'', Str ''A'')]]
               \<lparr> columnDelimiter_opt = Some '','', rowDelimiter_opt = Some [CR, LF] \<rparr>))
       = Inr (''No.,Label'' @ [CR, LF] @ ''1,A'' @ [CR, LF])
     \<and> table_render (\<lambda>s. ''blob:1'')
         (setTitle [] (ListofObj_to_Table_new [(''Label'', Path ''name'')] [Obj [(''name'', Str ''A'')]])) None
       = Inr (html, t')
     \<and> header (ListofObj_to_Table_new [(''Label'', Path ''name'')] [Obj [(''name'', Str ''A'')]])
       = [''No.'', ''Label'']
     \<and> (\<exists>rest. html = tableStyle ''#FFC107'' @ ''<TABLE><TR><TH>No.</TH><TH>Label</TH></TR>'' @ rest)"
proof -
  let ?S = "[(''Label'', Path ''name'')]"
  let ?C = "[Obj [(''name'', Str ''A'')]]"
  let ?o = "\<lparr> columnDelimiter_opt = Some '','', rowDelimiter_opt = Some [CR, LF] \<rparr>"
  have d: "render (setTitle [] (ListofObj_to_DelimitedText_new ?S ?C ?o))
             = Inr (''No.,Label'' @ [CR, LF] @ ''1,A'' @ [CR, LF])"
    by (simp add: eval_defs)
  obtain html t' where
    h: "table_render (\<lambda>s. ''blob:1'') (setTitle [] (ListofObj_to_Table_new ?S ?C)) None = Inr (html, t')"
    using table_render_example by blast
  from rendered_header [of ?S ?C ?o "[]" "''No.,Label'' @ [CR, LF] @ ''1,A'' @ [CR, LF]"
                           "\<lambda>s. ''blob:1''" None html t'] d h
  have "header (ListofObj_to_Table_new ?S ?C) = [''No.'', ''Label'']"
    and "\<exists>rest. html = tableStyle ''#FFC107'' @ ''<TABLE><TR><TH>No.</TH><TH>Label</TH></TR>'' @ rest"
    by simp_all
  with d h show ?thesis by blast
qed

end
